theory Spec2Isabelle
  imports Main
begin

section \<open>Data model\<close>

text \<open>
  The notebook works on Python dictionaries with string keys and string values.  A
  dictionary is a partial map; two dictionaries are equal when they bind the same keys
  to the same values, as Python's \<open>==\<close> on dicts has it (insertion order is not
  compared).

  \<open>compile_documents\<close> and \<open>expected_keys\<close> do not copy the dictionaries they are
  given: \<open>current_doc = item\<close> binds the accumulator to the entity object itself, and
  \<open>current_doc.update(item)\<close> and \<open>compiled_doc[expected_key] = 'Null'\<close> change
  objects in place.  So the dictionaries live in an object store, a list indexed by
  address, and Python lists of dictionaries are lists of addresses.  Creating a
  dictionary appends it to the store, which makes its address different from every
  address in use.
\<close>

type_synonym dict = "string \<rightharpoonup> string"
type_synonym ref = nat
type_synonym store = "dict list"

datatype error = ValueError | KeyError string

text \<open>The documents a list of addresses stands for in a store.\<close>

definition deref :: "store \<Rightarrow> ref list \<Rightarrow> dict list" where
  "deref h rs = map (\<lambda>r. h ! r) rs"

text \<open>Every address of the list is one of an object of the store.\<close>

definition valid_refs :: "store \<Rightarrow> ref list \<Rightarrow> bool" where
  "valid_refs h rs = list_all (\<lambda>r. r < length h) rs"

section \<open>The entity flattener\<close>

text \<open>
  \<^verbatim>\<open>
  def extract_entities(data):
      entities = []
      for document in data:
          for item in document.get('labels', []):
              label = item['label']
              entity_texts = [v['text'] for v in item['value']]
              entity = ' '.join(entity_texts)
              entities.append({label: entity})
      return entities
  \<close>
  A parsed label file is a dictionary that may have the key \<open>labels\<close>; an entry of
  \<open>labels\<close> may have the keys \<open>label\<close> and \<open>value\<close>, and a span of \<open>value\<close> may
  have the key \<open>text\<close>.  A key that is read with \<open>item['label']\<close>, \<open>item['value']\<close>
  or \<open>v['text']\<close> and is missing raises \<open>KeyError\<close>; \<open>labels\<close> is read with a
  default.  The fields \<open>value_spans\<close> and \<open>span_text\<close> are the keys \<open>value\<close> and
  \<open>text\<close>.
\<close>

record value_span =
  span_text :: "string option"

record label_entry =
  label :: "string option"
  value_spans :: "value_span list option"

record label_record =
  labels :: "label_entry list option"

text \<open>\<open>sep.join(xs)\<close> of Python's strings.\<close>

fun join :: "string \<Rightarrow> string list \<Rightarrow> string" where
  "join sep [] = []"
| "join sep [x] = x"
| "join sep (x # y # ys) = x @ sep @ join sep (y # ys)"

text \<open>\<open>[v['text'] for v in item['value']]\<close>.\<close>

fun entity_texts :: "value_span list \<Rightarrow> error + string list" where
  "entity_texts [] = Inr []"
| "entity_texts (v # vs) =
     (case span_text v of
        None \<Rightarrow> Inl (KeyError ''text'')
      | Some t \<Rightarrow> (case entity_texts vs of Inl e \<Rightarrow> Inl e | Inr ts \<Rightarrow> Inr (t # ts)))"

text \<open>The body of the inner loop: the dictionary \<open>{label: entity}\<close> of one entry.\<close>

definition extract_item :: "label_entry \<Rightarrow> error + dict" where
  "extract_item item =
     (case label item of
        None \<Rightarrow> Inl (KeyError ''label'')
      | Some l \<Rightarrow>
          (case value_spans item of
             None \<Rightarrow> Inl (KeyError ''value'')
           | Some vs \<Rightarrow>
               (case entity_texts vs of
                  Inl e \<Rightarrow> Inl e
                | Inr ts \<Rightarrow> Inr [l \<mapsto> join '' '' ts])))"

text \<open>The inner loop and the outer loop; \<open>entities\<close> is the list built so far.\<close>

fun extract_items :: "label_entry list \<Rightarrow> dict list \<Rightarrow> error + dict list" where
  "extract_items [] entities = Inr entities"
| "extract_items (item # items) entities =
     (case extract_item item of
        Inl e \<Rightarrow> Inl e
      | Inr entity \<Rightarrow> extract_items items (entities @ [entity]))"

fun extract_documents :: "label_record list \<Rightarrow> dict list \<Rightarrow> error + dict list" where
  "extract_documents [] entities = Inr entities"
| "extract_documents (document # data) entities =
     (case extract_items (case labels document of None \<Rightarrow> [] | Some ls \<Rightarrow> ls) entities of
        Inl e \<Rightarrow> Inl e
      | Inr entities' \<Rightarrow> extract_documents data entities')"

definition extract_entities :: "label_record list \<Rightarrow> error + dict list" where
  "extract_entities data = extract_documents data []"

section \<open>The document compiler\<close>

text \<open>
  \<^verbatim>\<open>
  def compile_documents(entities, title_keys):
      if not title_keys:
          raise ValueError("title_keys must be provided and cannot be None or empty.")
      compiled_docs = []
      current_doc = {}
      for item in entities:
          if any(key in item for key in title_keys):
              if current_doc:
                  compiled_docs.append(current_doc)
              current_doc = item
          else:
              current_doc.update(item)
      if current_doc:
          compiled_docs.append(current_doc)
      return compiled_docs
  \<close>
\<close>

text \<open>\<open>bool(d)\<close> of a dictionary: it has a key.\<close>

definition dict_truthy :: "dict \<Rightarrow> bool" where
  "dict_truthy d = (d \<noteq> Map.empty)"

text \<open>\<open>key in item\<close>.\<close>

definition key_in :: "string \<Rightarrow> dict \<Rightarrow> bool" where
  "key_in key item = (item key \<noteq> None)"

text \<open>\<open>any(key in item for key in title_keys)\<close>.\<close>

definition any_title_key :: "string list \<Rightarrow> dict \<Rightarrow> bool" where
  "any_title_key title_keys item = list_ex (\<lambda>key. key_in key item) title_keys"

text \<open>\<open>d.update(other)\<close>: every binding of \<open>other\<close> is stored in \<open>d\<close>.\<close>

definition dict_update :: "dict \<Rightarrow> dict \<Rightarrow> dict" where
  "dict_update d other = d ++ other"

text \<open>The variables of the loop: the store, \<open>compiled_docs\<close> and \<open>current_doc\<close>.\<close>

record compile_state =
  objs :: store
  compiled_docs :: "ref list"
  current_doc :: ref

text \<open>\<open>if current_doc: compiled_docs.append(current_doc)\<close>.\<close>

definition append_current :: "compile_state \<Rightarrow> ref list" where
  "append_current s =
     (if dict_truthy (objs s ! current_doc s) then compiled_docs s @ [current_doc s]
      else compiled_docs s)"

text \<open>One pass through the body of the loop, for the entity at address \<open>item\<close>.\<close>

definition compile_step :: "string list \<Rightarrow> ref \<Rightarrow> compile_state \<Rightarrow> compile_state" where
  "compile_step title_keys item s =
     (if any_title_key title_keys (objs s ! item)
      then s\<lparr>compiled_docs := append_current s, current_doc := item\<rparr>
      else s\<lparr>objs := (objs s)[current_doc s :=
                 dict_update (objs s ! current_doc s) (objs s ! item)]\<rparr>)"

text \<open>
  \<open>title_keys\<close> is \<open>None\<close> or a list of keys.  The result is the error raised, or
  the store after the call together with the list returned.
\<close>

definition compile_documents ::
  "store \<Rightarrow> ref list \<Rightarrow> string list option \<Rightarrow> error + (store \<times> ref list)" where
  "compile_documents h entities title_keys =
     (case title_keys of
        None \<Rightarrow> Inl ValueError
      | Some tks \<Rightarrow>
          if tks = [] then Inl ValueError
          else
            let s0 = \<lparr>objs = h @ [Map.empty], compiled_docs = [], current_doc = length h\<rparr>;
                s = fold (compile_step tks) entities s0
            in Inr (objs s, append_current s))"

section \<open>The field normalizer\<close>

text \<open>
  \<^verbatim>\<open>
  def expected_keys(compiled_documents, expected_key_list):
      for compiled_doc in compiled_documents:
          for expected_key in expected_key_list:
              if expected_key not in compiled_doc:
                  compiled_doc[expected_key] = 'Null'
      return compiled_documents
  \<close>
\<close>

text \<open>The body of the inner loop, on the document at address \<open>compiled_doc\<close>.\<close>

definition set_default :: "ref \<Rightarrow> string \<Rightarrow> store \<Rightarrow> store" where
  "set_default compiled_doc expected_key h =
     (if \<not> key_in expected_key (h ! compiled_doc)
      then h[compiled_doc := (h ! compiled_doc)(expected_key \<mapsto> ''Null'')]
      else h)"

text \<open>The result is the store after the call together with the list returned.\<close>

definition expected_keys :: "store \<Rightarrow> ref list \<Rightarrow> string list \<Rightarrow> store \<times> ref list" where
  "expected_keys h compiled_documents expected_key_list =
     (fold (\<lambda>compiled_doc. fold (set_default compiled_doc) expected_key_list)
        compiled_documents h,
      compiled_documents)"

section \<open>Notions of the specification\<close>

text \<open>
  A FlatEntity is a dictionary with a single key.  It is a title entity, the start of
  a logical document, when that key is one of the title keys.
\<close>

definition flat_entity :: "dict \<Rightarrow> bool" where
  "flat_entity d = (card (dom d) = 1)"

definition title_entity :: "string list \<Rightarrow> dict \<Rightarrow> bool" where
  "title_entity title_keys d = list_ex (\<lambda>key. dom d = {key}) title_keys"



text \<open>
  A dictionary with the expected keys filled in: a key of the list that is not bound
  gets the sentinel, and every other key is left as it is.
\<close>

definition with_expected_keys :: "string list \<Rightarrow> dict \<Rightarrow> dict" where
  "with_expected_keys expected_key_list d =
     (\<lambda>k. if k \<in> set expected_key_list \<and> d k = None then Some ''Null'' else d k)"

text \<open>
  A LabelRecord of the specification is a sequence of entries, each a label with the
  texts of its value spans; \<open>record_of\<close> is the parsed label file that holds them.
  The texts of an entry are concatenated with a single space before each text but the
  first, and the FlatEntity of the entry maps its label to that string.
\<close>

definition entry_of :: "string \<times> string list \<Rightarrow> label_entry" where
  "entry_of e = \<lparr>label = Some (fst e),
                 value_spans = Some (map (\<lambda>t. \<lparr>span_text = Some t\<rparr>) (snd e))\<rparr>"

definition record_of :: "(string \<times> string list) list \<Rightarrow> label_record" where
  "record_of es = \<lparr>labels = Some (map entry_of es)\<rparr>"

definition spaced :: "string list \<Rightarrow> string" where
  "spaced ts = (case ts of [] \<Rightarrow> [] | t # us \<Rightarrow> t @ concat (map (\<lambda>u. CHR '' '' # u) us))"

definition flat_of :: "string \<times> string list \<Rightarrow> dict" where
  "flat_of e = [fst e \<mapsto> spaced (snd e)]"

section \<open>The loop of the document compiler, step by step\<close>

lemma length_compile_step: "length (objs (compile_step tks item s)) = length (objs s)"
  by (simp add: compile_step_def)

lemma dict_truthy_key_in: "dict_truthy d = (\<exists>k. key_in k d)"
  by (auto simp: dict_truthy_def key_in_def fun_eq_iff)

lemma any_title_key_truthy: "any_title_key tks d \<Longrightarrow> dict_truthy d"
  unfolding any_title_key_def list_ex_iff dict_truthy_key_in by blast

text \<open>A step never removes a key from an object.\<close>

lemma key_in_compile_step:
  "key_in k (objs s ! r) \<Longrightarrow> key_in k (objs (compile_step tks item s) ! r)"
proof (cases "any_title_key tks (objs s ! item)")
  case True
  assume "key_in k (objs s ! r)"
  with True show ?thesis by (simp add: compile_step_def)
next
  case False
  assume k: "key_in k (objs s ! r)"
  show ?thesis
  proof (cases "r = current_doc s \<and> current_doc s < length (objs s)")
    case True
    with False k show ?thesis
      by (simp add: compile_step_def key_in_def dict_update_def map_add_def split: option.split)
  next
    case False
    then have "(objs s)[current_doc s := d] ! r = objs s ! r" for d
      by (cases "r = current_doc s") (simp_all add: list_update_beyond)
    with \<open>\<not> any_title_key tks (objs s ! item)\<close> k show ?thesis
      by (simp add: compile_step_def)
  qed
qed

lemma dict_truthy_compile_step:
  "dict_truthy (objs s ! r) \<Longrightarrow> dict_truthy (objs (compile_step tks item s) ! r)"
  unfolding dict_truthy_key_in by (blast intro: key_in_compile_step)

text \<open>
  A step neither gives a title key to an object nor takes one away: only an entity
  without title keys is merged into another object.
\<close>

lemma any_title_key_compile_step:
  "any_title_key tks (objs (compile_step tks item s) ! r) = any_title_key tks (objs s ! r)"
proof (cases "any_title_key tks (objs s ! item)")
  case True
  then show ?thesis by (simp add: compile_step_def)
next
  case nt: False
  show ?thesis
  proof (cases "r = current_doc s \<and> current_doc s < length (objs s)")
    case True
    have "any_title_key tks (d ++ (objs s ! item)) = any_title_key tks d" for d
      using nt by (auto simp: any_title_key_def list_ex_iff key_in_def map_add_def
          split: option.splits)
    with nt True show ?thesis
      by (simp add: compile_step_def dict_update_def)
  next
    case False
    then have "(objs s)[current_doc s := d] ! r = objs s ! r" for d
      by (cases "r = current_doc s") (simp_all add: list_update_beyond)
    with nt show ?thesis by (simp add: compile_step_def)
  qed
qed

lemma current_doc_compile_step_valid:
  "current_doc s < length (objs s) \<Longrightarrow> item < length (objs s) \<Longrightarrow>
   current_doc (compile_step tks item s) < length (objs s)"
  by (simp add: compile_step_def)

lemma current_truthy_compile_step:
  "current_doc s < length (objs s) \<Longrightarrow> dict_truthy (objs s ! item) \<Longrightarrow>
   dict_truthy (objs (compile_step tks item s) ! current_doc (compile_step tks item s))"
  by (auto simp: compile_step_def dict_update_def dict_truthy_def)

lemma length_compiled_docs_step:
  "length (compiled_docs (compile_step tks item s)) =
     (if any_title_key tks (objs s ! item) \<and> dict_truthy (objs s ! current_doc s)
      then Suc (length (compiled_docs s)) else length (compiled_docs s))"
  by (simp add: compile_step_def append_current_def)

lemma nth_store_append: "valid_refs h rs \<Longrightarrow> r \<in> set rs \<Longrightarrow> (h @ [d]) ! r = h ! r"
  by (simp add: valid_refs_def list_all_iff nth_append)

lemma deref_store_append: "valid_refs h rs \<Longrightarrow> deref (h @ [d]) rs = deref h rs"
  by (simp add: deref_def nth_store_append)

lemma flat_entity_truthy: "flat_entity d \<Longrightarrow> dict_truthy d"
  by (auto simp: flat_entity_def dict_truthy_def)

lemma flat_entity_title: "flat_entity d \<Longrightarrow> any_title_key tks d = title_entity tks d"
proof -
  assume "flat_entity d"
  then obtain k where k: "dom d = {k}"
    unfolding flat_entity_def by (auto simp: card_1_singleton_iff)
  have "key_in k' d = (k' = k)" for k'
    using k by (auto simp: key_in_def)
  then show ?thesis
    using k by (auto simp: any_title_key_def list_ex_iff title_entity_def)
qed

section \<open>Properties of the document compiler\<close>

text \<open>
  C1.  Whatever the entities are, \<open>compile_documents\<close> raises \<open>ValueError\<close> exactly
  when \<open>title_keys\<close> is absent (\<open>None\<close>) or empty, and then returns no list; with a
  non-empty \<open>title_keys\<close> it returns a list and raises nothing.
\<close>

theorem compile_documents_title_keys_required:
  "(compile_documents h entities title_keys = Inl ValueError)
     = (title_keys = None \<or> title_keys = Some [])
   \<and> (\<exists>res. compile_documents h entities title_keys = Inr res)
     = (title_keys \<noteq> None \<and> title_keys \<noteq> Some [])"
  by (cases title_keys) (simp_all add: compile_documents_def Let_def)

theorem compile_documents_title_keys_required_witness:
  "compile_documents [[''author'' \<mapsto> ''A1'']] [0] None = Inl ValueError
   \<and> compile_documents [[''author'' \<mapsto> ''A1'']] [0] (Some []) = Inl ValueError
   \<and> (\<exists>res. compile_documents [[''author'' \<mapsto> ''A1'']] [0] (Some [''document_title''])
        = Inr res)"
  using compile_documents_title_keys_required [of "[[''author'' \<mapsto> ''A1'']]" "[0]" None]
    compile_documents_title_keys_required [of "[[''author'' \<mapsto> ''A1'']]" "[0]" "Some []"]
    compile_documents_title_keys_required
      [of "[[''author'' \<mapsto> ''A1'']]" "[0]" "Some [''document_title'']"]
  by simp

text \<open>
  C7.  The stream \<open>[{"document_title":"Doc1"}, {"author":"A1"}, {"document_title":"Doc2"},
  {"author":"A2"}]\<close>, four objects at the addresses 0 to 3, compiled with the title key
  \<open>document_title\<close>: the list returned holds the first and the third object, which
  are then \<open>{"document_title":"Doc1","author":"A1"}\<close> and
  \<open>{"document_title":"Doc2","author":"A2"}\<close>.
\<close>

theorem compile_documents_example:
  "\<exists>h'. compile_documents
       [[''document_title'' \<mapsto> ''Doc1''], [''author'' \<mapsto> ''A1''],
        [''document_title'' \<mapsto> ''Doc2''], [''author'' \<mapsto> ''A2'']]
       [0, 1, 2, 3] (Some [''document_title''])
     = Inr (h', [0, 2])
   \<and> deref h' [0, 2] =
       [[''document_title'' \<mapsto> ''Doc1'', ''author'' \<mapsto> ''A1''],
        [''document_title'' \<mapsto> ''Doc2'', ''author'' \<mapsto> ''A2'']]"
  by (simp add: compile_documents_def compile_step_def append_current_def
      any_title_key_def key_in_def dict_truthy_def dict_update_def deref_def)

lemma docs_truthy_step:
  assumes "list_all (\<lambda>r. dict_truthy (objs s ! r)) (compiled_docs s)"
  shows "list_all (\<lambda>r. dict_truthy (objs (compile_step tks item s) ! r))
           (compiled_docs (compile_step tks item s))"
proof (cases "any_title_key tks (objs s ! item)")
  case True
  with assms show ?thesis
    by (simp add: compile_step_def append_current_def)
next
  case False
  then have "compiled_docs (compile_step tks item s) = compiled_docs s"
    by (simp add: compile_step_def)
  with assms show ?thesis
    unfolding list_all_iff by (auto intro: dict_truthy_compile_step)
qed

lemma docs_truthy_fold:
  "list_all (\<lambda>r. dict_truthy (objs s ! r)) (compiled_docs s) \<Longrightarrow>
   list_all (\<lambda>r. dict_truthy (objs (fold (compile_step tks) es s) ! r))
     (compiled_docs (fold (compile_step tks) es s))"
  by (induction es arbitrary: s) (simp_all add: docs_truthy_step)

text \<open>
  C9.  With a non-empty \<open>title_keys\<close> the call returns, and every document of the
  list returned has at least one key: the empty dictionary is never in the result.
  This holds for every store and every list of entity addresses, single-key or not,
  shared or not.
\<close>

theorem compile_documents_docs_nonempty:
  assumes "tks \<noteq> []"
  shows "\<exists>h' docs. compile_documents h entities (Some tks) = Inr (h', docs)
     \<and> list_all dict_truthy (deref h' docs)"
proof -
  define s0 :: compile_state
    where "s0 = \<lparr>objs = h @ [Map.empty], compiled_docs = [], current_doc = length h\<rparr>"
  define s where "s = fold (compile_step tks) entities s0"
  have "list_all (\<lambda>r. dict_truthy (objs s0 ! r)) (compiled_docs s0)"
    by (simp add: s0_def)
  then have "list_all (\<lambda>r. dict_truthy (objs s ! r)) (compiled_docs s)"
    unfolding s_def by (rule docs_truthy_fold)
  then have "list_all (\<lambda>r. dict_truthy (objs s ! r)) (append_current s)"
    by (simp add: append_current_def)
  then have "list_all dict_truthy (deref (objs s) (append_current s))"
    by (simp add: deref_def list_all_iff)
  moreover have "compile_documents h entities (Some tks) = Inr (objs s, append_current s)"
    using assms by (simp add: compile_documents_def s_def s0_def Let_def)
  ultimately show ?thesis by blast
qed

theorem compile_documents_docs_nonempty_witness:
  "[''document_title''] \<noteq> []
   \<and> (\<exists>h' docs. compile_documents
         [Map.empty, [''author'' \<mapsto> ''A1''], [''document_title'' \<mapsto> ''Doc1'']]
         [0, 1, 0, 2, 0, 2] (Some [''document_title'']) = Inr (h', docs)
       \<and> list_all dict_truthy (deref h' docs))"
  using compile_documents_docs_nonempty [of "[''document_title'']"
      "[Map.empty, [''author'' \<mapsto> ''A1''], [''document_title'' \<mapsto> ''Doc1'']]"
      "[0, 1, 0, 2, 0, 2]"]
  by simp

lemma titled_tail_step:
  assumes "list_all (\<lambda>r. any_title_key tks (objs s ! r)) (tl (compiled_docs s))"
    and "compiled_docs s \<noteq> [] \<longrightarrow> any_title_key tks (objs s ! current_doc s)"
  shows "list_all (\<lambda>r. any_title_key tks (objs (compile_step tks item s) ! r))
           (tl (compiled_docs (compile_step tks item s)))
       \<and> (compiled_docs (compile_step tks item s) \<noteq> [] \<longrightarrow>
            any_title_key tks (objs (compile_step tks item s) !
              current_doc (compile_step tks item s)))"
  unfolding any_title_key_compile_step
  using assms by (cases "compiled_docs s") (auto simp: compile_step_def append_current_def)

lemma titled_tail_fold:
  "list_all (\<lambda>r. any_title_key tks (objs s ! r)) (tl (compiled_docs s)) \<Longrightarrow>
   compiled_docs s \<noteq> [] \<longrightarrow> any_title_key tks (objs s ! current_doc s) \<Longrightarrow>
   list_all (\<lambda>r. any_title_key tks (objs (fold (compile_step tks) es s) ! r))
     (tl (compiled_docs (fold (compile_step tks) es s)))
   \<and> (compiled_docs (fold (compile_step tks) es s) \<noteq> [] \<longrightarrow>
        any_title_key tks (objs (fold (compile_step tks) es s) !
          current_doc (fold (compile_step tks) es s)))"
proof (induction es arbitrary: s)
  case Nil
  then show ?case by simp
next
  case (Cons item es)
  from titled_tail_step [OF Cons.prems, of item]
  show ?case by (simp add: Cons.IH)
qed

lemma titled_tail_append_current:
  "list_all (\<lambda>r. any_title_key tks (objs s ! r)) (tl (compiled_docs s)) \<Longrightarrow>
   compiled_docs s \<noteq> [] \<longrightarrow> any_title_key tks (objs s ! current_doc s) \<Longrightarrow>
   list_all (\<lambda>r. any_title_key tks (objs s ! r)) (tl (append_current s))"
  by (cases "compiled_docs s") (simp_all add: append_current_def)

lemma all_titled_step:
  assumes "list_all (\<lambda>r. any_title_key tks (objs s ! r)) (compiled_docs s)"
    and "any_title_key tks (objs s ! current_doc s)"
  shows "list_all (\<lambda>r. any_title_key tks (objs (compile_step tks item s) ! r))
           (compiled_docs (compile_step tks item s))
       \<and> any_title_key tks (objs (compile_step tks item s) !
              current_doc (compile_step tks item s))"
  unfolding any_title_key_compile_step
  using assms by (auto simp: compile_step_def append_current_def)

lemma all_titled_fold:
  "list_all (\<lambda>r. any_title_key tks (objs s ! r)) (compiled_docs s) \<Longrightarrow>
   any_title_key tks (objs s ! current_doc s) \<Longrightarrow>
   list_all (\<lambda>r. any_title_key tks (objs (fold (compile_step tks) es s) ! r))
     (append_current (fold (compile_step tks) es s))"
proof (induction es arbitrary: s)
  case Nil
  then show ?case by (simp add: append_current_def)
next
  case (Cons item es)
  from all_titled_step [OF Cons.prems, of item]
  show ?case by (simp add: Cons.IH)
qed

text \<open>
  C10.  With a non-empty \<open>title_keys\<close> the call returns, and every document of the
  list returned, the first one apart, has a key of \<open>title_keys\<close>.  The first one has
  a title key as well when the first entity has one (or there is no entity): it can
  lack one only when an entity without title keys comes first.  This holds for every
  store and every list of entity addresses.
\<close>

theorem compile_documents_later_docs_titled:
  assumes "tks \<noteq> []"
  shows "\<exists>h' docs. compile_documents h entities (Some tks) = Inr (h', docs)
     \<and> list_all (any_title_key tks) (tl (deref h' docs))
     \<and> (entities = [] \<or> hd entities < length h \<and> any_title_key tks (h ! hd entities)
          \<longrightarrow> list_all (any_title_key tks) (deref h' docs))"
proof -
  define s0 :: compile_state
    where "s0 = \<lparr>objs = h @ [Map.empty], compiled_docs = [], current_doc = length h\<rparr>"
  define s where "s = fold (compile_step tks) entities s0"
  have "list_all (\<lambda>r. any_title_key tks (objs s ! r)) (tl (compiled_docs s))
       \<and> (compiled_docs s \<noteq> [] \<longrightarrow> any_title_key tks (objs s ! current_doc s))"
    unfolding s_def by (rule titled_tail_fold) (simp_all add: s0_def)
  then have "list_all (\<lambda>r. any_title_key tks (objs s ! r)) (tl (append_current s))"
    by (simp add: titled_tail_append_current)
  then have later: "list_all (any_title_key tks) (tl (deref (objs s) (append_current s)))"
    by (simp add: deref_def list_all_iff map_tl [symmetric])
  have all: "list_all (any_title_key tks) (deref (objs s) (append_current s))"
    if first: "entities = [] \<or> hd entities < length h \<and> any_title_key tks (h ! hd entities)"
  proof (cases entities)
    case Nil
    then show ?thesis
      by (simp add: s_def s0_def append_current_def dict_truthy_def deref_def)
  next
    case (Cons item es)
    with first have item: "item < length h" "any_title_key tks (h ! item)" by simp_all
    let ?s1 = "compile_step tks item s0"
    have "compiled_docs ?s1 = []" "current_doc ?s1 = item" "objs ?s1 = h @ [Map.empty]"
      using item
      by (simp_all add: compile_step_def s0_def append_current_def dict_truthy_def nth_append)
    then have "list_all (\<lambda>r. any_title_key tks (objs ?s1 ! r)) (compiled_docs ?s1)"
      "any_title_key tks (objs ?s1 ! current_doc ?s1)"
      using item by (simp_all add: nth_append)
    then have "list_all (\<lambda>r. any_title_key tks (objs (fold (compile_step tks) es ?s1) ! r))
      (append_current (fold (compile_step tks) es ?s1))"
      by (rule all_titled_fold)
    then show ?thesis
      by (simp add: s_def Cons deref_def list_all_iff)
  qed
  have "compile_documents h entities (Some tks) = Inr (objs s, append_current s)"
    using assms by (simp add: compile_documents_def s_def s0_def Let_def)
  with later all show ?thesis by blast
qed

theorem compile_documents_later_docs_titled_witness:
  "[''document_title''] \<noteq> []
   \<and> any_title_key [''document_title'']
       ([[''document_title'' \<mapsto> ''Doc1''], [''author'' \<mapsto> ''A1'']] ! hd [0, 1, 0, 1])
   \<and> (\<exists>h' docs. compile_documents
         [[''document_title'' \<mapsto> ''Doc1''], [''author'' \<mapsto> ''A1'']]
         [0, 1, 0, 1] (Some [''document_title'']) = Inr (h', docs)
       \<and> list_all (any_title_key [''document_title'']) (tl (deref h' docs))
       \<and> list_all (any_title_key [''document_title'']) (deref h' docs))"
  using compile_documents_later_docs_titled [of "[''document_title'']"
      "[[''document_title'' \<mapsto> ''Doc1''], [''author'' \<mapsto> ''A1'']]" "[0, 1, 0, 1]"]
  by (simp add: any_title_key_def key_in_def)

lemma length_append_current_fold:
  assumes "list_all (\<lambda>r. r < length (objs s) \<and> dict_truthy (objs s ! r)) es"
    and "current_doc s < length (objs s)"
  shows "length (append_current (fold (compile_step tks) es s)) =
           length (compiled_docs s)
           + length (filter (\<lambda>r. any_title_key tks (objs s ! r)) es)
           + (if dict_truthy (objs s ! current_doc s)
                 \<or> (es \<noteq> [] \<and> \<not> any_title_key tks (objs s ! hd es)) then 1 else 0)"
  using assms
proof (induction es arbitrary: s)
  case Nil
  then show ?case by (simp add: append_current_def)
next
  case (Cons item es)
  let ?s1 = "compile_step tks item s"
  from Cons.prems have item: "item < length (objs s)" "dict_truthy (objs s ! item)"
    and rest: "list_all (\<lambda>r. r < length (objs s) \<and> dict_truthy (objs s ! r)) es"
    by simp_all
  have rest1: "list_all (\<lambda>r. r < length (objs ?s1) \<and> dict_truthy (objs ?s1 ! r)) es"
    using rest unfolding list_all_iff
    by (auto simp: length_compile_step intro: dict_truthy_compile_step)
  have cur1: "current_doc ?s1 < length (objs ?s1)"
    using Cons.prems(2) item(1)
    by (simp add: length_compile_step current_doc_compile_step_valid)
  have truthy1: "dict_truthy (objs ?s1 ! current_doc ?s1)"
    using Cons.prems(2) item(2) by (rule current_truthy_compile_step)
  have "length (append_current (fold (compile_step tks) es ?s1)) =
          length (compiled_docs ?s1)
          + length (filter (\<lambda>r. any_title_key tks (objs s ! r)) es) + 1"
    using Cons.IH [OF rest1 cur1] truthy1 by (simp add: any_title_key_compile_step)
  then show ?case
    by (simp add: length_compiled_docs_step)
qed

text \<open>
  C2.  The entities are single-key dictionaries, at valid addresses of the store, and
  \<open>title_keys\<close> is not empty.  Then the call returns, and the number of documents
  returned is the number of entities whose key is a title key, plus one when entities
  with another key come before the first title entity.  So without any title entity
  there is at most one document, and without any entity there is none.
\<close>

theorem compile_documents_count:
  assumes "tks \<noteq> []" and "valid_refs h entities"
    and "list_all flat_entity (deref h entities)"
  shows "\<exists>h' docs. compile_documents h entities (Some tks) = Inr (h', docs)
     \<and> length docs = length (filter (title_entity tks) (deref h entities))
         + (if takeWhile (\<lambda>d. \<not> title_entity tks d) (deref h entities) \<noteq> [] then 1 else 0)
     \<and> (filter (title_entity tks) (deref h entities) = [] \<longrightarrow> length docs \<le> 1)
     \<and> (entities = [] \<longrightarrow> docs = [])"
proof -
  define s0 :: compile_state
    where "s0 = \<lparr>objs = h @ [Map.empty], compiled_docs = [], current_doc = length h\<rparr>"
  define s where "s = fold (compile_step tks) entities s0"
  define ds where "ds = deref h entities"
  have ds0: "deref (objs s0) entities = ds"
    using assms(2) by (simp add: s0_def ds_def deref_store_append)
  have flat: "list_all flat_entity ds"
    using assms(3) by (simp add: ds_def)
  have pre: "list_all (\<lambda>r. r < length (objs s0) \<and> dict_truthy (objs s0 ! r)) entities"
    using assms(2) flat ds0 [symmetric]
    by (auto simp: valid_refs_def list_all_iff deref_def s0_def intro: flat_entity_truthy)
  have titles: "filter (\<lambda>r. any_title_key tks (objs s0 ! r)) entities
      = filter (\<lambda>r. title_entity tks (objs s0 ! r)) entities"
    using flat ds0 [symmetric]
    by (intro filter_cong refl) (simp add: list_all_iff deref_def flat_entity_title)
  have first: "entities \<noteq> [] \<Longrightarrow>
      any_title_key tks (objs s0 ! hd entities) = title_entity tks (hd ds)"
    using flat ds0 [symmetric]
    by (cases entities) (simp_all add: deref_def flat_entity_title)
  have cur0: "current_doc s0 < length (objs s0)" "\<not> dict_truthy (objs s0 ! current_doc s0)"
    "compiled_docs s0 = []"
    by (simp_all add: s0_def dict_truthy_def)
  have "length (append_current s) =
      length (filter (\<lambda>r. any_title_key tks (objs s0 ! r)) entities)
      + (if entities \<noteq> [] \<and> \<not> any_title_key tks (objs s0 ! hd entities) then 1 else 0)"
    unfolding s_def length_append_current_fold [OF pre cur0(1)] using cur0(2,3) by simp
  also have "(entities \<noteq> [] \<and> \<not> any_title_key tks (objs s0 ! hd entities))
      = (entities \<noteq> [] \<and> \<not> title_entity tks (hd ds))"
    using first by blast
  also note titles
  also have "length (filter (\<lambda>r. title_entity tks (objs s0 ! r)) entities)
      = length (filter (title_entity tks) ds)"
    unfolding ds0 [symmetric] deref_def filter_map by (simp add: comp_def)
  also have "(entities \<noteq> [] \<and> \<not> title_entity tks (hd ds))
      = (takeWhile (\<lambda>d. \<not> title_entity tks d) ds \<noteq> [])"
    by (cases entities) (simp_all add: ds_def deref_def)
  finally have len: "length (append_current s) = length (filter (title_entity tks) ds)
      + (if takeWhile (\<lambda>d. \<not> title_entity tks d) ds \<noteq> [] then 1 else 0)" .
  have res: "compile_documents h entities (Some tks) = Inr (objs s, append_current s)"
    using assms(1) by (simp add: compile_documents_def s_def s0_def Let_def)
  have "filter (title_entity tks) ds = [] \<longrightarrow> length (append_current s) \<le> 1"
    using len by simp
  moreover have "entities = [] \<longrightarrow> append_current s = []"
    using len by (auto simp: ds_def deref_def)
  ultimately show ?thesis
    using res len unfolding ds_def by blast
qed

theorem compile_documents_count_witness:
  "valid_refs [[''author'' \<mapsto> ''A1''], [''document_title'' \<mapsto> ''Doc1'']] [0, 1, 0, 1]
   \<and> list_all flat_entity
        (deref [[''author'' \<mapsto> ''A1''], [''document_title'' \<mapsto> ''Doc1'']] [0, 1, 0, 1])
   \<and> (\<exists>h' docs. compile_documents
          [[''author'' \<mapsto> ''A1''], [''document_title'' \<mapsto> ''Doc1'']] [0, 1, 0, 1]
          (Some [''document_title'']) = Inr (h', docs)
        \<and> length docs = 3)
   \<and> filter (title_entity [''document_title''])
        (deref [[''author'' \<mapsto> ''A1''], [''document_title'' \<mapsto> ''Doc1'']] [0, 0]) = []
   \<and> (\<exists>h' docs. compile_documents
          [[''author'' \<mapsto> ''A1''], [''document_title'' \<mapsto> ''Doc1'']] [0, 0]
          (Some [''document_title'']) = Inr (h', docs)
        \<and> length docs = 1)
   \<and> (\<exists>h'. compile_documents
          [[''author'' \<mapsto> ''A1''], [''document_title'' \<mapsto> ''Doc1'']] []
          (Some [''document_title'']) = Inr (h', []))"
  using compile_documents_count [of "[''document_title'']"
      "[[''author'' \<mapsto> ''A1''], [''document_title'' \<mapsto> ''Doc1'']]" "[0, 1, 0, 1]"]
    compile_documents_count [of "[''document_title'']"
      "[[''author'' \<mapsto> ''A1''], [''document_title'' \<mapsto> ''Doc1'']]" "[0, 0]"]
    compile_documents_count [of "[''document_title'']"
      "[[''author'' \<mapsto> ''A1''], [''document_title'' \<mapsto> ''Doc1'']]" "[]"]
  by (auto simp: valid_refs_def deref_def flat_entity_def title_entity_def
      eval_nat_numeral)

section \<open>Last write wins\<close>













section \<open>Properties of the field normalizer\<close>

lemma with_expected_keys_idem:
  "with_expected_keys K (with_expected_keys K d) = with_expected_keys K d"
  by (auto simp: with_expected_keys_def fun_eq_iff)

lemma with_expected_keys_Nil: "with_expected_keys [] d = d"
  by (simp add: with_expected_keys_def)

lemma with_expected_keys_Cons:
  "with_expected_keys (k # K) d =
     with_expected_keys K (if d k = None then d(k \<mapsto> ''Null'') else d)"
  by (auto simp: with_expected_keys_def fun_eq_iff)

lemma set_default_eq:
  "set_default doc k h =
     h[doc := (if (h ! doc) k = None then (h ! doc)(k \<mapsto> ''Null'') else h ! doc)]"
  by (simp add: set_default_def key_in_def)

text \<open>The inner loop fills the expected keys of one document in.\<close>

lemma fold_set_default:
  "fold (set_default doc) K h = h[doc := with_expected_keys K (h ! doc)]"
proof (induction K arbitrary: h)
  case Nil
  then show ?case by (simp add: with_expected_keys_Nil)
next
  case (Cons k K)
  let ?h1 = "set_default doc k h"
  have "fold (set_default doc) (k # K) h = fold (set_default doc) K ?h1"
    by simp
  also have "\<dots> = ?h1[doc := with_expected_keys K (?h1 ! doc)]"
    by (rule Cons.IH)
  also have "\<dots> = h[doc := with_expected_keys (k # K) (h ! doc)]"
  proof (cases "doc < length h")
    case True
    then show ?thesis
      unfolding set_default_eq with_expected_keys_Cons by simp
  next
    case False
    then show ?thesis
      unfolding set_default_eq by (simp add: list_update_beyond)
  qed
  finally show ?case .
qed

lemma expected_keys_eq:
  "expected_keys h docs K =
     (fold (\<lambda>r h. h[r := with_expected_keys K (h ! r)]) docs h, docs)"
proof -
  have "fold (set_default r) K = (\<lambda>h. h[r := with_expected_keys K (h ! r)])" for r
    by (rule ext) (rule fold_set_default)
  then show ?thesis by (simp add: expected_keys_def)
qed

lemma length_fold_update:
  "length (fold (\<lambda>r h. h[r := f (h ! r)]) rs h) = length h"
  by (induction rs arbitrary: h) simp_all

lemma nth_fold_update:
  assumes "\<And>d. f (f d) = f d" and "i < length h"
  shows "fold (\<lambda>r h. h[r := f (h ! r)]) rs h ! i = (if i \<in> set rs then f (h ! i) else h ! i)"
  using assms(2)
proof (induction rs arbitrary: h)
  case Nil
  then show ?case by simp
next
  case (Cons r rs)
  let ?h1 = "h[r := f (h ! r)]"
  have "fold (\<lambda>r h. h[r := f (h ! r)]) rs ?h1 ! i =
     (if i \<in> set rs then f (?h1 ! i) else ?h1 ! i)"
    using Cons.prems by (intro Cons.IH) simp
  then show ?case
    using Cons.prems by (cases "i = r") (simp_all add: assms(1))
qed

text \<open>
  C4.  \<open>expected_keys\<close> is idempotent: called again with the same key list on the
  store and the list that a first call has left, it returns the same list and leaves
  every object as the first call has left it.
\<close>

theorem expected_keys_idempotent:
  "expected_keys (fst (expected_keys h docs K)) (snd (expected_keys h docs K)) K
     = expected_keys h docs K"
proof -
  let ?run = "fold (\<lambda>r h. h[r := with_expected_keys K (h ! r)]) docs"
  have "?run (?run h) = ?run h"
  proof (rule nth_equalityI)
    show "length (?run (?run h)) = length (?run h)"
      by (simp add: length_fold_update)
  next
    fix i assume "i < length (?run (?run h))"
    then have i: "i < length h" by (simp add: length_fold_update)
    then have "i < length (?run h)" by (simp add: length_fold_update)
    then have "?run (?run h) ! i =
        (if i \<in> set docs then with_expected_keys K (?run h ! i) else ?run h ! i)"
      by (intro nth_fold_update with_expected_keys_idem)
    then show "?run (?run h) ! i = ?run h ! i"
      using i by (simp add: nth_fold_update with_expected_keys_idem)
  qed
  then show ?thesis by (simp add: expected_keys_eq)
qed

theorem expected_keys_idempotent_witness:
  "expected_keys [[''title'' \<mapsto> ''X'']] [0] [''title'', ''author'']
     = ([[''title'' \<mapsto> ''X'', ''author'' \<mapsto> ''Null'']], [0])
   \<and> expected_keys [[''title'' \<mapsto> ''X'', ''author'' \<mapsto> ''Null'']] [0] [''title'', ''author'']
     = ([[''title'' \<mapsto> ''X'', ''author'' \<mapsto> ''Null'']], [0])"
proof -
  have first: "expected_keys [[''title'' \<mapsto> ''X'']] [0] [''title'', ''author'']
     = ([[''title'' \<mapsto> ''X'', ''author'' \<mapsto> ''Null'']], [0])"
    by (simp add: expected_keys_def set_default_def key_in_def)
  from expected_keys_idempotent [of "[[''title'' \<mapsto> ''X'']]" "[0]" "[''title'', ''author'']"]
  show ?thesis unfolding first by simp
qed

text \<open>
  C5.  The documents are objects of the store.  After \<open>expected_keys\<close> the same list
  is returned and, in each document of it, every key of \<open>expected_key_list\<close> is bound;
  a key of the list that was not bound before is bound to \<open>"Null"\<close>; a key that was
  bound before, in the list or not, has the value it had; and a key outside the list is
  as it was before.
\<close>

theorem expected_keys_fills_missing:
  assumes "valid_refs h docs"
  shows "\<exists>h'. expected_keys h docs K = (h', docs)
     \<and> list_all (\<lambda>r.
           list_all (\<lambda>k. key_in k (h' ! r)) K
         \<and> (\<forall>k. k \<in> set K \<and> \<not> key_in k (h ! r) \<longrightarrow> (h' ! r) k = Some ''Null'')
         \<and> (\<forall>k. key_in k (h ! r) \<longrightarrow> (h' ! r) k = (h ! r) k)
         \<and> (\<forall>k. k \<notin> set K \<longrightarrow> (h' ! r) k = (h ! r) k)) docs"
proof -
  let ?h' = "fold (\<lambda>r h. h[r := with_expected_keys K (h ! r)]) docs h"
  have "?h' ! r = with_expected_keys K (h ! r)" if "r \<in> set docs" for r
    using that assms
    by (simp add: nth_fold_update with_expected_keys_idem valid_refs_def list_all_iff)
  then have "list_all (\<lambda>r.
           list_all (\<lambda>k. key_in k (?h' ! r)) K
         \<and> (\<forall>k. k \<in> set K \<and> \<not> key_in k (h ! r) \<longrightarrow> (?h' ! r) k = Some ''Null'')
         \<and> (\<forall>k. key_in k (h ! r) \<longrightarrow> (?h' ! r) k = (h ! r) k)
         \<and> (\<forall>k. k \<notin> set K \<longrightarrow> (?h' ! r) k = (h ! r) k)) docs"
    by (auto simp: list_all_iff with_expected_keys_def key_in_def)
  then show ?thesis by (simp add: expected_keys_eq)
qed

theorem expected_keys_fills_missing_witness:
  "valid_refs [[''title'' \<mapsto> ''X'']] [0]
   \<and> (\<exists>h'. expected_keys [[''title'' \<mapsto> ''X'']] [0] [''title'', ''author''] = (h', [0])
        \<and> (h' ! 0) ''title'' = Some ''X'' \<and> (h' ! 0) ''author'' = Some ''Null''
        \<and> (h' ! 0) ''id'' = None)"
  using expected_keys_fills_missing [of "[[''title'' \<mapsto> ''X'']]" "[0]" "[''title'', ''author'']"]
  by (auto simp: valid_refs_def key_in_def)

section \<open>Properties of the entity flattener\<close>

lemma join_spaced: "join '' '' ts = spaced ts"
  by (induction "'' ''" ts rule: join.induct) (simp_all add: spaced_def)

lemma entity_texts_spans:
  "entity_texts (map (\<lambda>t. \<lparr>span_text = Some t\<rparr>) ts) = Inr ts"
  by (induction ts) simp_all

lemma extract_item_entry_of: "extract_item (entry_of e) = Inr (flat_of e)"
  by (simp add: extract_item_def entry_of_def flat_of_def entity_texts_spans join_spaced)

lemma extract_items_entries:
  "extract_items (map entry_of es) entities = Inr (entities @ map flat_of es)"
  by (induction es arbitrary: entities) (simp_all add: extract_item_entry_of)

lemma extract_documents_records:
  "extract_documents (map record_of recs) entities
     = Inr (entities @ concat (map (map flat_of) recs))"
  by (induction recs arbitrary: entities) (simp_all add: record_of_def extract_items_entries)

lemma extract_entities_records:
  "extract_entities (map record_of recs) = Inr (concat (map (map flat_of) recs))"
  by (simp add: extract_entities_def extract_documents_records)

text \<open>
  C6.  On a sequence of LabelRecords \<open>extract_entities\<close> raises nothing and returns,
  record after record and entry after entry, the FlatEntity of each entry: its label
  mapped to its texts joined by single spaces.  The list has as many entities as the
  records have entries, equal entries included, and a record without entries adds
  nothing.
\<close>

theorem extract_entities_flat:
  "extract_entities (map record_of recs) = Inr (concat (map (map flat_of) recs))
   \<and> length (concat (map (map flat_of) recs)) = sum_list (map length recs)
   \<and> extract_entities (map record_of (recs @ [] # recs'))
       = extract_entities (map record_of (recs @ recs'))"
  unfolding extract_entities_records by (simp add: length_concat comp_def)

theorem extract_entities_flat_witness:
  "extract_entities
     [\<lparr>labels = Some
         [\<lparr>label = Some ''title'',
           value_spans = Some [\<lparr>span_text = Some ''Annual''\<rparr>, \<lparr>span_text = Some ''Report''\<rparr>]\<rparr>,
          \<lparr>label = Some ''author'', value_spans = Some [\<lparr>span_text = Some ''A1''\<rparr>]\<rparr>]\<rparr>,
      \<lparr>labels = Some []\<rparr>,
      \<lparr>labels = Some [\<lparr>label = Some ''author'', value_spans = Some [\<lparr>span_text = Some ''A1''\<rparr>]\<rparr>,
                       \<lparr>label = Some ''note'', value_spans = Some []\<rparr>]\<rparr>]
   = Inr [[''title'' \<mapsto> ''Annual Report''], [''author'' \<mapsto> ''A1''], [''author'' \<mapsto> ''A1''],
          [''note'' \<mapsto> []]]"
  using extract_entities_flat [of
      "[[(''title'', [''Annual'', ''Report'']), (''author'', [''A1''])], [],
        [(''author'', [''A1'']), (''note'', [])]]"]
  by (simp add: record_of_def entry_of_def flat_of_def spaced_def)

end
